theory Spec2Isabelle
  imports Main "HOL-Library.Multiset"
begin

section \<open>Text: code points and the character classes of the regex engine\<close>

text \<open>
  Python strings are sequences of code points. The model covers the code points
  0..255, one \<^typ>\<open>char\<close> each; text with code points above 255 is outside the model.
  The three classes below are the ones Python's \<^verbatim>\<open>re\<close> module and \<^verbatim>\<open>str.strip\<close> use on
  \<^verbatim>\<open>str\<close> values (Unicode semantics), restricted to that range.
\<close>

definition code :: "char \<Rightarrow> nat" where
  "code c = of_char c"

text \<open>\<^verbatim>\<open>\d\<close>: a Unicode decimal digit; below 256 these are \<^verbatim>\<open>0\<close>..\<^verbatim>\<open>9\<close>.\<close>

definition is_digit :: "char \<Rightarrow> bool" where
  "is_digit c = (48 \<le> code c \<and> code c \<le> 57)"

text \<open>
  \<^verbatim>\<open>\w\<close>: an alphanumeric code point or the underscore. Below 256 the alphanumerics are
  the ASCII letters and digits, the letters of the Latin-1 block (0xAA, 0xB5, 0xBA,
  0xC0..0xD6, 0xD8..0xF6, 0xF8..0xFF) and its numeric signs (0xB2, 0xB3, 0xB9,
  0xBC..0xBE).
\<close>

definition is_word :: "char \<Rightarrow> bool" where
  "is_word c = (let n = code c in
     (48 \<le> n \<and> n \<le> 57) \<or> (65 \<le> n \<and> n \<le> 90) \<or> n = 95 \<or> (97 \<le> n \<and> n \<le> 122) \<or>
     n = 170 \<or> n = 178 \<or> n = 179 \<or> n = 181 \<or> n = 185 \<or> n = 186 \<or>
     (188 \<le> n \<and> n \<le> 190) \<or> (192 \<le> n \<and> n \<le> 214) \<or> (216 \<le> n \<and> n \<le> 246) \<or>
     248 \<le> n)"

text \<open>Whitespace as \<^verbatim>\<open>str.strip()\<close> sees it: 0x09..0x0D, 0x1C..0x20, 0x85, 0xA0.\<close>

definition is_space :: "char \<Rightarrow> bool" where
  "is_space c = (let n = code c in
     (9 \<le> n \<and> n \<le> 13) \<or> (28 \<le> n \<and> n \<le> 32) \<or> n = 133 \<or> n = 160)"

text \<open>
  The simple lower-case mapping the engine applies under \<^verbatim>\<open>re.IGNORECASE\<close>: below 256 it
  moves \<^verbatim>\<open>A\<close>..\<^verbatim>\<open>Z\<close>, 0xC0..0xD6 and 0xD8..0xDE up by 32 and leaves the rest alone.
\<close>

definition to_lower :: "char \<Rightarrow> char" where
  "to_lower c = (let n = code c in
     if (65 \<le> n \<and> n \<le> 90) \<or> (192 \<le> n \<and> n \<le> 214) \<or> (216 \<le> n \<and> n \<le> 222)
     then char_of (n + 32) else c)"

definition newline :: char where
  "newline = CHR 0x0A"

definition strip :: "string \<Rightarrow> string" where
  "strip s = rev (dropWhile is_space (rev (dropWhile is_space s)))"


section \<open>The ticket matcher\<close>

text \<open>
  \<^verbatim>\<open>re.search(rf'(?<!\w){ticket_key}(?!\d)', commit_message, re.IGNORECASE)\<close>

  The ticket key is pasted into the pattern as it is, so the engine reads it as a
  regular expression. The engine's special characters are
  \<^verbatim>\<open>. \ [ { ( ) * + ? ^ $ |\<close>; every other character, the closing \<^verbatim>\<open>]\<close> and \<^verbatim>\<open>}\<close>
  included, stands for itself (up to case), and the dot stands for any character but
  the newline. The model covers the keys made of ordinary characters and dots. A key
  with one of the other special characters is outside the modelled fragment:
  \<open>key_atoms\<close> and \<open>ticket_match\<close> answer \<open>None\<close> for it, which says nothing about
  the engine there (it evaluates most such keys and raises on the rest). On a key of
  the fragment the answer is \<open>Some b\<close>, \<open>b\<close> telling whether the search finds a match.
\<close>

datatype atom = Lit char | Dot

definition operator_chars :: "char list" where
  "operator_chars = CHR 0x5C # ''[{()*+?^$|''"

definition key_atom :: "char \<Rightarrow> atom option" where
  "key_atom c = (if c = CHR ''.'' then Some Dot
                 else if c \<in> set operator_chars then None
                 else Some (Lit c))"

fun key_atoms :: "string \<Rightarrow> atom list option" where
  "key_atoms [] = Some []"
| "key_atoms (c # cs) =
     (case key_atom c of None \<Rightarrow> None
      | Some a \<Rightarrow> (case key_atoms cs of None \<Rightarrow> None | Some as \<Rightarrow> Some (a # as)))"

fun atom_match :: "atom \<Rightarrow> char \<Rightarrow> bool" where
  "atom_match (Lit c) d = (to_lower d = to_lower c)"
| "atom_match Dot d = (d \<noteq> newline)"

text \<open>
  \<open>match_here as s\<close>: the atoms match a prefix of \<open>s\<close> and the lookahead \<^verbatim>\<open>(?!\d)\<close> holds
  after it.
\<close>

fun match_here :: "atom list \<Rightarrow> string \<Rightarrow> bool" where
  "match_here [] [] = True"
| "match_here [] (d # ds) = (\<not> is_digit d)"
| "match_here (a # as) [] = False"
| "match_here (a # as) (d # ds) = (atom_match a d \<and> match_here as ds)"

text \<open>The lookbehind \<^verbatim>\<open>(?<!\w)\<close>, given the character before the position, if any.\<close>

fun lookbehind_ok :: "char option \<Rightarrow> bool" where
  "lookbehind_ok None = True"
| "lookbehind_ok (Some p) = (\<not> is_word p)"

text \<open>
  \<open>search_from as prev s\<close>: \<^verbatim>\<open>re.search\<close> tries every position of the message from left
  to right, the end included; \<open>prev\<close> is the character before the current position.
\<close>

fun search_from :: "atom list \<Rightarrow> char option \<Rightarrow> string \<Rightarrow> bool" where
  "search_from as prev [] = (lookbehind_ok prev \<and> match_here as [])"
| "search_from as prev (d # ds) =
     ((lookbehind_ok prev \<and> match_here as (d # ds)) \<or> search_from as (Some d) ds)"

definition ticket_match :: "string \<Rightarrow> string \<Rightarrow> bool option" where
  "ticket_match ticket_key commit_msg =
     (case key_atoms ticket_key of None \<Rightarrow> None
      | Some as \<Rightarrow> Some (search_from as None commit_msg))"

text \<open>
  The rule in the specification's words: the key occurs in the message at some position,
  compared case-insensitively, with no word character immediately before it and no digit
  immediately after it.
\<close>

definition occurs_at :: "string \<Rightarrow> string \<Rightarrow> nat \<Rightarrow> bool" where
  "occurs_at K M i =
     (i + length K \<le> length M \<and>
      map to_lower (take (length K) (drop i M)) = map to_lower K \<and>
      (i = 0 \<or> \<not> is_word (M ! (i - 1))) \<and>
      (i + length K = length M \<or> \<not> is_digit (M ! (i + length K))))"

definition matches_spec :: "string \<Rightarrow> string \<Rightarrow> bool" where
  "matches_spec K M = (\<exists>i \<in> set [0..<Suc (length M)]. occurs_at K M i)"

text \<open>A key with no special character of the engine in it: every character stands for itself.\<close>

definition plain_key :: "string \<Rightarrow> bool" where
  "plain_key K = (\<forall>c \<in> set K. c \<noteq> CHR ''.'' \<and> c \<notin> set operator_chars)"


section \<open>Errors and the ticket tracker\<close>

text \<open>
  The program ends a run with \<^verbatim>\<open>sys.exit(1)\<close> in two places of the fetch path: when the
  release has no name (\<open>ReleaseNotFound\<close>, the specification's LookupError) and when a
  request raises (\<open>RequestFailed\<close>, its TransportError). Two exceptions of the
  associator end a run as well, uncaught: the regex engine raising on a pattern
  (\<open>PatternError\<close>) and \<^verbatim>\<open>datetime.fromtimestamp\<close> raising on a date it cannot
  represent (\<open>DateError\<close>).
\<close>

datatype error = ReleaseNotFound | RequestFailed | PatternError | DateError

record issue =
  key :: string
  summary :: string

text \<open>
  A JSON reply of the tracker, read only through \<^verbatim>\<open>.get\<close>: a missing entry is \<open>None\<close>.
\<close>

record reply =
  reply_name :: "string option"
  reply_issues :: "issue list option"
  reply_total :: "int option"

text \<open>
  A request as the program sends it: the version lookup with the release id, or a search
  with the query, \<^verbatim>\<open>maxResults\<close> and \<^verbatim>\<open>startAt\<close>.
\<close>

datatype request = GetVersion string | Search string nat nat

text \<open>
  The tracker is the sequence of its answers: \<open>srv k\<close> answers the \<open>k\<close>-th request of the
  run (counted from 0), \<open>None\<close> when the request raises. The requests made so far are
  kept in a log, in order.
\<close>

type_synonym jira = "nat \<Rightarrow> reply option"

definition make_jira_request ::
  "jira \<Rightarrow> request list \<Rightarrow> request \<Rightarrow> (error + reply) \<times> request list" where
  "make_jira_request srv log req =
     ((case srv (length log) of None \<Rightarrow> Inl RequestFailed | Some r \<Rightarrow> Inr r), log @ [req])"

definition get_release_info ::
  "jira \<Rightarrow> request list \<Rightarrow> string \<Rightarrow> (error + reply) \<times> request list" where
  "get_release_info srv log release_id = make_jira_request srv log (GetVersion release_id)"

definition max_results :: nat where
  "max_results = 100"

definition dquote :: char where
  "dquote = CHR 0x22"

definition jql_of :: "string \<Rightarrow> string" where
  "jql_of release_name =
     ''fixVersion = '' @ [dquote] @ release_name @ [dquote] @ '' ORDER BY created ASC''"

definition issues_of :: "reply \<Rightarrow> issue list" where
  "issues_of response = (case reply_issues response of None \<Rightarrow> [] | Some page \<Rightarrow> page)"

definition total_of :: "reply \<Rightarrow> int" where
  "total_of response = (case reply_total response of None \<Rightarrow> 0 | Some t \<Rightarrow> t)"

text \<open>
  The pagination loop of \<^verbatim>\<open>get_tasks_in_release\<close>, from the state (log, all_issues,
  start_at, total). It may not return, so the result is an option.
\<close>

partial_function (option) fetch_loop ::
  "jira \<Rightarrow> string \<Rightarrow> request list \<Rightarrow> issue list \<Rightarrow> nat \<Rightarrow> int option
     \<Rightarrow> ((error + issue list) \<times> request list) option" where
  "fetch_loop srv jql log all_issues start_at tot =
     (if tot = None \<or> int start_at < the tot then
        (case make_jira_request srv log (Search jql max_results start_at) of
           (Inl e, log') \<Rightarrow> Some (Inl e, log')
         | (Inr response, log') \<Rightarrow>
             if issues_of response = [] then Some (Inr all_issues, log')
             else if length (issues_of response) < max_results
               then Some (Inr (all_issues @ issues_of response), log')
             else fetch_loop srv jql log' (all_issues @ issues_of response)
                    (start_at + length (issues_of response))
                    (case tot of None \<Rightarrow> Some (total_of response) | Some t \<Rightarrow> Some t))
      else Some (Inr all_issues, log))"

definition get_tasks_in_release ::
  "jira \<Rightarrow> string \<Rightarrow> ((error + issue list) \<times> request list) option" where
  "get_tasks_in_release srv release_id =
     (case get_release_info srv [] release_id of
        (Inl e, log) \<Rightarrow> Some (Inl e, log)
      | (Inr release_info, log) \<Rightarrow>
          (case reply_name release_info of
             None \<Rightarrow> Some (Inl ReleaseNotFound, log)
           | Some release_name \<Rightarrow>
               if release_name = [] then Some (Inl ReleaseNotFound, log)
               else fetch_loop srv (jql_of release_name) log [] 0 None))"


section \<open>Commits and associations\<close>

record commit =
  hexsha :: string
  message :: string
  committed_date :: int

text \<open>
  An entry of the list \<^verbatim>\<open>commits\<close>. \<^verbatim>\<open>commit_date\<close> is a \<^verbatim>\<open>datetime\<close>; its type is left
  open, and \<^verbatim>\<open>datetime.fromtimestamp\<close> (which depends on the local time zone) is a
  parameter \<open>fromtimestamp\<close>, answering \<open>None\<close> where the conversion raises (a
  timestamp out of the range of \<^verbatim>\<open>datetime\<close>).
\<close>

record 'd association =
  ticket_key :: string
  commit_hash :: string
  commit_date :: 'd
  commit_message :: string

text \<open>
  The inner loop over the ticket keys for one commit, on the state (commits,
  unique_commit_hashes). Every key is tried, also after a match. The regex test is the
  parameter \<open>re_search\<close> (key, then message), so that what is proved of the scan holds
  for the engine whatever it does with a key; \<open>ticket_match\<close> is its model on plain
  and dot keys. An answer \<open>None\<close> of the test ends the scan, as the exception does. The
  date is converted while the entry is built, so only for a match on a commit not yet
  seen; a conversion that raises ends the scan too.
\<close>

fun scan_keys ::
  "(string \<Rightarrow> string \<Rightarrow> bool option) \<Rightarrow> (int \<Rightarrow> 'd option) \<Rightarrow> commit \<Rightarrow> string list
     \<Rightarrow> 'd association list \<times> string set
     \<Rightarrow> error + 'd association list \<times> string set" where
  "scan_keys re_search fromtimestamp c [] st = Inr st"
| "scan_keys re_search fromtimestamp c (k # ks) (commits, unique_commit_hashes) =
     (case re_search k (message c) of
        None \<Rightarrow> Inl PatternError
      | Some False \<Rightarrow> scan_keys re_search fromtimestamp c ks (commits, unique_commit_hashes)
      | Some True \<Rightarrow>
          if hexsha c \<in> unique_commit_hashes
          then scan_keys re_search fromtimestamp c ks (commits, unique_commit_hashes)
          else (case fromtimestamp (committed_date c) of
                  None \<Rightarrow> Inl DateError
                | Some d \<Rightarrow>
                    scan_keys re_search fromtimestamp c ks
                      (commits @ [\<lparr>ticket_key = k, commit_hash = hexsha c,
                                    commit_date = d,
                                    commit_message = strip (message c)\<rparr>],
                       insert (hexsha c) unique_commit_hashes)))"

fun scan_commits ::
  "(string \<Rightarrow> string \<Rightarrow> bool option) \<Rightarrow> (int \<Rightarrow> 'd option) \<Rightarrow> commit list \<Rightarrow> string list
     \<Rightarrow> 'd association list \<times> string set
     \<Rightarrow> error + 'd association list \<times> string set" where
  "scan_commits re_search fromtimestamp [] ticket_keys st = Inr st"
| "scan_commits re_search fromtimestamp (c # cs) ticket_keys st =
     (case scan_keys re_search fromtimestamp c ticket_keys st of
        Inl e \<Rightarrow> Inl e
      | Inr st' \<Rightarrow> scan_commits re_search fromtimestamp cs ticket_keys st')"

definition get_commit_ids_for_tickets ::
  "(string \<Rightarrow> string \<Rightarrow> bool option) \<Rightarrow> (int \<Rightarrow> 'd option) \<Rightarrow> commit list \<Rightarrow> issue list
     \<Rightarrow> error + 'd association list" where
  "get_commit_ids_for_tickets re_search fromtimestamp all_commits issues =
     (case scan_commits re_search fromtimestamp all_commits (map key issues) ([], {}) of
        Inl e \<Rightarrow> Inl e
      | Inr (commits, unique_commit_hashes) \<Rightarrow> Inr commits)"

text \<open>
  \<^verbatim>\<open>sorted(commits, key=lambda x: x['commit_date'])\<close>. Python's \<^verbatim>\<open>sorted\<close> is a stable
  sort; the result of a stable sort does not depend on the algorithm, so insertion by
  key stands for it.
\<close>

definition order_commits_chronologically ::
  "('d::linorder) association list \<Rightarrow> 'd association list" where
  "order_commits_chronologically commits =
     sort_key commit_date commits"


section \<open>The cherry-pick script\<close>

definition squote :: char where
  "squote = CHR 0x27"

text \<open>\<^verbatim>\<open>s.split(chr(10))[0]\<close>\<close>

definition first_line :: "string \<Rightarrow> string" where
  "first_line s = takeWhile (\<lambda>c. c \<noteq> newline) s"

definition comment_line :: "'d association \<Rightarrow> string" where
  "comment_line c = ''# '' @ ticket_key c @ '': '' @ first_line (commit_message c)"

definition pick_line :: "'d association \<Rightarrow> string" where
  "pick_line c = ''git cherry-pick --strategy=recursive -X theirs '' @ commit_hash c"

definition script_head :: "string \<Rightarrow> string \<Rightarrow> string \<Rightarrow> string list" where
  "script_head release_id target_branch now =
     [''#!/bin/bash'',
      [],
      ''# Cherry-pick script for JIRA release '' @ release_id,
      ''# Generated on '' @ now,
      [],
      ''# Exit on error'',
      ''set -e'',
      [],
      ''# Checkout the target branch'',
      ''git checkout '' @ target_branch,
      [],
      ''# Cherry-pick each commit'',
      []]"

text \<open>The loop appending three lines per commit to \<^verbatim>\<open>script_content\<close>.\<close>

fun append_commits :: "string list \<Rightarrow> 'd association list \<Rightarrow> string list" where
  "append_commits script_content [] = script_content"
| "append_commits script_content (c # cs) =
     append_commits (((script_content @ [comment_line c]) @ [pick_line c]) @ [[]]) cs"

definition success_line :: string where
  "success_line = ''echo '' @ [squote] @ ''Cherry-picking completed successfully!'' @ [squote]"

text \<open>
  The list \<^verbatim>\<open>script_content\<close> when the file is written; \<open>now\<close> is the text of
  \<^verbatim>\<open>datetime.now().strftime(...)\<close>.
\<close>

definition script_content ::
  "string \<Rightarrow> string \<Rightarrow> string \<Rightarrow> 'd association list \<Rightarrow> string list" where
  "script_content release_id target_branch now ordered_commits =
     append_commits (script_head release_id target_branch now) ordered_commits @ [success_line]"

text \<open>\<^verbatim>\<open>'\n'.join(lines)\<close>\<close>

fun join_lines :: "string list \<Rightarrow> string" where
  "join_lines [] = []"
| "join_lines [l] = l"
| "join_lines (l # m # ls) = l @ newline # join_lines (m # ls)"

text \<open>The file the generator leaves behind: its path, its text and its mode.\<close>

record script_file =
  path :: string
  content :: string
  mode :: nat

definition output_file_of :: "string \<Rightarrow> string option \<Rightarrow> string" where
  "output_file_of release_id output_file =
     (case output_file of
        None \<Rightarrow> ''cherry_pick_release_'' @ release_id @ ''.sh''
      | Some p \<Rightarrow> if p = [] then ''cherry_pick_release_'' @ release_id @ ''.sh'' else p)"

definition generate_cherry_pick_script ::
  "string \<Rightarrow> string \<Rightarrow> string option \<Rightarrow> string \<Rightarrow> 'd association list \<Rightarrow> script_file" where
  "generate_cherry_pick_script release_id target_branch output_file now ordered_commits =
     \<lparr>path = output_file_of release_id output_file,
      content = join_lines (script_content release_id target_branch now ordered_commits),
      mode = 493\<rparr>"


text \<open>
  The lines of a text, as a shell reads the script: the text split at every newline.
  A line is a command when it is not blank and its first character after leading blanks
  is not the comment sign.
\<close>

fun split_lines :: "string \<Rightarrow> string list" where
  "split_lines [] = [[]]"
| "split_lines (c # cs) =
     (if c = CHR 0x0A then [] # split_lines cs
      else (case split_lines cs of [] \<Rightarrow> [[c]] | l # ls \<Rightarrow> (c # l) # ls))"

definition is_blank :: "char \<Rightarrow> bool" where
  "is_blank c = (c = CHR '' '' \<or> c = CHR 0x09)"

definition is_command :: "string \<Rightarrow> bool" where
  "is_command l = (case dropWhile is_blank l of [] \<Rightarrow> False | c # cs \<Rightarrow> c \<noteq> CHR ''#'')"


section \<open>The run\<close>

text \<open>
  The four steps of \<^verbatim>\<open>run\<close>, with the log of the requests sent. The constructor (the
  check of the credentials, the opening of the repository) comes before it and is not
  part of the model.
\<close>

definition run ::
  "jira \<Rightarrow> (string \<Rightarrow> string \<Rightarrow> bool option) \<Rightarrow> (int \<Rightarrow> ('d::linorder) option)
     \<Rightarrow> commit list
     \<Rightarrow> string \<Rightarrow> string \<Rightarrow> string option \<Rightarrow> string
     \<Rightarrow> ((error + script_file) \<times> request list) option" where
  "run srv re_search fromtimestamp all_commits release_id target_branch output_file now =
     (case get_tasks_in_release srv release_id of
        None \<Rightarrow> None
      | Some (Inl e, log) \<Rightarrow> Some (Inl e, log)
      | Some (Inr issues, log) \<Rightarrow>
          (case get_commit_ids_for_tickets re_search fromtimestamp all_commits issues of
             Inl e \<Rightarrow> Some (Inl e, log)
           | Inr commits \<Rightarrow>
               Some (Inr (generate_cherry_pick_script release_id target_branch output_file now
                            (order_commits_chronologically commits)), log)))"


section \<open>Vocabulary of the proofs\<close>






text \<open>
  The page the tracker answered to request \<open>k\<close>, and example trackers for the closed
  instances below: numbered tickets, replies, and a tracker given by the list of its
  answers (a request past the end of the list raises).
\<close>

definition page_of :: "jira \<Rightarrow> nat \<Rightarrow> issue list" where
  "page_of srv k = (case srv k of None \<Rightarrow> [] | Some r \<Rightarrow> issues_of r)"


definition ticket :: "nat \<Rightarrow> issue" where
  "ticket n = \<lparr>key = ''T-'' @ replicate n (CHR ''0'') @ ''1'', summary = []\<rparr>"

definition tickets :: "nat \<Rightarrow> nat \<Rightarrow> issue list" where
  "tickets a b = map ticket [a..<b]"

definition named :: "string \<Rightarrow> reply" where
  "named nm = \<lparr>reply_name = Some nm, reply_issues = None, reply_total = None\<rparr>"

definition page :: "issue list \<Rightarrow> int \<Rightarrow> reply" where
  "page is t = \<lparr>reply_name = None, reply_issues = Some is, reply_total = Some t\<rparr>"

definition srv_of :: "reply list \<Rightarrow> jira" where
  "srv_of rs k = (if k < length rs then Some (rs ! k) else None)"

definition srv_inconsistent :: jira where
  "srv_inconsistent = srv_of [named ''Sprint 42'', page (tickets 0 100) 1000, page (tickets 100 105) 1000]"

definition srv_shifted :: jira where
  "srv_shifted = srv_of [named ''Sprint 42'', page (tickets 0 100) 101, page [ticket 99] 101]"

definition srv_small :: jira where
  "srv_small = srv_of [named ''Sprint 42'', page (tickets 0 3) 3]"

definition srv_237 :: jira where
  "srv_237 = srv_of [named ''Sprint 42'', page (tickets 0 100) 237, page (tickets 100 200) 237,
                     page (tickets 200 237) 237]"

definition srv_unnamed :: jira where
  "srv_unnamed = srv_of [\<lparr>reply_name = None, reply_issues = None, reply_total = None\<rparr>]"

definition srv_50 :: jira where
  "srv_50 = srv_of [named ''Sprint 42'', page (tickets 0 100) 50, page (tickets 100 200) 50]"


text \<open>
  Example data for the closed instances below: the end-to-end scenario of the
  specification (tickets ABC-1 and ABC-2, three commits) and four associations of which
  two carry the same date.
\<close>

definition assoc_ex :: "string \<Rightarrow> string \<Rightarrow> int \<Rightarrow> string \<Rightarrow> int association" where
  "assoc_ex k h t m = \<lparr>ticket_key = k, commit_hash = h, commit_date = t, commit_message = m\<rparr>"

definition same_time_commits :: "int association list" where
  "same_time_commits =
     [assoc_ex ''ABC-1'' ''a'' 3 ''ABC-1 one'', assoc_ex ''ABC-2'' ''b'' 1 ''ABC-2 two'',
      assoc_ex ''ABC-1'' ''c'' 3 ''ABC-1 three'', assoc_ex ''ABC-2'' ''d'' 2 ''ABC-2 four'']"

definition scenario_associations :: "int association list" where
  "scenario_associations =
     [assoc_ex ''ABC-1'' ''c1'' 100 (''ABC-1 fix'' @ [newline] @ [newline] @ ''details''),
      assoc_ex ''ABC-1'' ''c3'' 200 ''ABC-2 and ABC-1 combined'']"




section \<open>The matcher against its specification\<close>

lemma key_atoms_plain: "plain_key K \<Longrightarrow> key_atoms K = Some (map Lit K)"
  by (induction K) (auto simp: plain_key_def key_atom_def)

lemma match_here_lit:
  "match_here (map Lit K) s =
     (length K \<le> length s \<and> map to_lower (take (length K) s) = map to_lower K \<and>
      (length K = length s \<or> \<not> is_digit (s ! length K)))"
proof (induction K arbitrary: s)
  case Nil
  then show ?case by (cases s) auto
next
  case (Cons c K)
  then show ?case by (cases s) auto
qed

lemma search_from_positions:
  "search_from as prev s =
     ((lookbehind_ok prev \<and> match_here as s) \<or>
      (\<exists>j < length s. \<not> is_word (s ! j) \<and> match_here as (drop (Suc j) s)))"
proof (induction s arbitrary: prev)
  case Nil
  then show ?case by simp
next
  case (Cons d ds)
  have "(\<exists>j < length (d # ds). \<not> is_word ((d # ds) ! j) \<and> match_here as (drop (Suc j) (d # ds)))
        = ((\<not> is_word d \<and> match_here as ds) \<or>
           (\<exists>j < length ds. \<not> is_word (ds ! j) \<and> match_here as (drop (Suc j) ds)))"
    (is "?L = ?R")
  proof
    assume ?L
    then obtain j where j: "j < length (d # ds)" "\<not> is_word ((d # ds) ! j)"
      "match_here as (drop (Suc j) (d # ds))" by blast
    show ?R
    proof (cases j)
      case 0
      with j show ?thesis by simp
    next
      case (Suc k)
      with j have "k < length ds \<and> \<not> is_word (ds ! k) \<and> match_here as (drop (Suc k) ds)" by simp
      then show ?thesis by blast
    qed
  next
    assume ?R
    then show ?L
    proof
      assume "\<not> is_word d \<and> match_here as ds"
      then have "0 < length (d # ds) \<and> \<not> is_word ((d # ds) ! 0) \<and> match_here as (drop (Suc 0) (d # ds))"
        by simp
      then show ?L by blast
    next
      assume "\<exists>j < length ds. \<not> is_word (ds ! j) \<and> match_here as (drop (Suc j) ds)"
      then obtain k where "k < length ds" "\<not> is_word (ds ! k)" "match_here as (drop (Suc k) ds)" by blast
      then have "Suc k < length (d # ds) \<and> \<not> is_word ((d # ds) ! Suc k) \<and> match_here as (drop (Suc (Suc k)) (d # ds))"
        by simp
      then show ?L by blast
    qed
  qed
  then show ?case using Cons.IH [of "Some d"] by auto
qed

lemma occurs_at_0: "occurs_at K M 0 = match_here (map Lit K) M"
  by (auto simp: occurs_at_def match_here_lit)

lemma occurs_at_Suc:
  "j < length M \<Longrightarrow> occurs_at K M (Suc j) = (\<not> is_word (M ! j) \<and> match_here (map Lit K) (drop (Suc j) M))"
  by (auto simp: occurs_at_def match_here_lit add.commute)

lemma matches_spec_le: "matches_spec K M = (\<exists>i \<le> length M. occurs_at K M i)"
  unfolding matches_spec_def by (simp add: Bex_def less_Suc_eq_le del: upt_Suc)

lemma matches_spec_positions:
  "matches_spec K M =
     (match_here (map Lit K) M \<or>
      (\<exists>j < length M. \<not> is_word (M ! j) \<and> match_here (map Lit K) (drop (Suc j) M)))"
proof -
  have "matches_spec K M = (occurs_at K M 0 \<or> (\<exists>j < length M. occurs_at K M (Suc j)))"
    unfolding matches_spec_le
  proof
    assume "\<exists>i \<le> length M. occurs_at K M i"
    then obtain i where i: "i \<le> length M" "occurs_at K M i" by blast
    show "occurs_at K M 0 \<or> (\<exists>j < length M. occurs_at K M (Suc j))"
    proof (cases i)
      case 0 with i show ?thesis by simp
    next
      case (Suc j) with i have "j < length M \<and> occurs_at K M (Suc j)" by simp
      then show ?thesis by blast
    qed
  next
    assume "occurs_at K M 0 \<or> (\<exists>j < length M. occurs_at K M (Suc j))"
    then show "\<exists>i \<le> length M. occurs_at K M i"
    proof
      assume "occurs_at K M 0" then show ?thesis by blast
    next
      assume "\<exists>j < length M. occurs_at K M (Suc j)"
      then obtain j where "j < length M" "occurs_at K M (Suc j)" by blast
      then have "Suc j \<le> length M \<and> occurs_at K M (Suc j)" by simp
      then show ?thesis by blast
    qed
  qed
  then show ?thesis by (auto simp: occurs_at_0 occurs_at_Suc)
qed

text \<open>
  On a key with no special character in it the test is the rule of the specification
  (for text of code points 0..255): it answers true if and only if the key occurs in
  the message, compared case-insensitively, with no word character immediately before
  it and no digit immediately after it.
\<close>

lemma ticket_match_plain:
  "plain_key K \<Longrightarrow> ticket_match K M = Some (matches_spec K M)"
  by (simp add: ticket_match_def key_atoms_plain search_from_positions matches_spec_positions)

text \<open>
  C1. The rule fails on the code for a key with a dot in it. The key is pasted into the
  pattern unescaped, so the dot matches any character: for the key \<^verbatim>\<open>A.1\<close> and the
  message \<^verbatim>\<open>AB1\<close> the test answers true, though the key does not occur in the message.
\<close>

theorem ticket_match_counterexample:
  "ticket_match ''A.1'' ''AB1'' = Some True \<and> \<not> matches_spec ''A.1'' ''AB1''"
  by code_simp

text \<open>
  C6. The three test vectors: \<^verbatim>\<open>PROJ-1\<close> does not match \<^verbatim>\<open>fixes PROJ-12\<close>, \<^verbatim>\<open>PROJ-12\<close>
  matches \<^verbatim>\<open>fixes PROJ-12 today\<close>, and \<^verbatim>\<open>PROJ-12\<close> does not match \<^verbatim>\<open>xPROJ-12\<close>.
\<close>

theorem ticket_match_vectors:
  "ticket_match ''PROJ-1'' ''fixes PROJ-12'' = Some False \<and>
   ticket_match ''PROJ-12'' ''fixes PROJ-12 today'' = Some True \<and>
   ticket_match ''PROJ-12'' ''xPROJ-12'' = Some False"
  by code_simp


section \<open>The commit associator\<close>










section \<open>The release ticket fetcher\<close>

lemma fetch_loop_done:
  "\<not> (tot = None \<or> int start_at < the tot) \<Longrightarrow>
     fetch_loop srv jql log all_issues start_at tot = Some (Inr all_issues, log)"
  by (subst fetch_loop.simps) auto

lemma fetch_loop_step:
  "tot = None \<or> int start_at < the tot \<Longrightarrow>
     fetch_loop srv jql log all_issues start_at tot =
       (case srv (length log) of
          None \<Rightarrow> Some (Inl RequestFailed, log @ [Search jql max_results start_at])
        | Some response \<Rightarrow>
            if issues_of response = []
            then Some (Inr all_issues, log @ [Search jql max_results start_at])
            else if length (issues_of response) < max_results
            then Some (Inr (all_issues @ issues_of response),
                       log @ [Search jql max_results start_at])
            else fetch_loop srv jql (log @ [Search jql max_results start_at])
                   (all_issues @ issues_of response)
                   (start_at + length (issues_of response))
                   (case tot of None \<Rightarrow> Some (total_of response) | Some t \<Rightarrow> Some t))"
  by (subst fetch_loop.simps) (auto simp: make_jira_request_def split: option.splits)

lemma fetch_loop_stops:
  assumes "srv k = Some r" "length (issues_of r) < max_results"
  shows "length log \<le> k \<Longrightarrow>
     \<exists>res log'. fetch_loop srv jql log all_issues start_at tot = Some (res, log') \<and> length log' \<le> Suc k"
proof (induction "k - length log" arbitrary: log all_issues start_at tot)
  case 0
  then have k: "length log = k" by simp
  show ?case
    by (cases "tot = None \<or> int start_at < the tot") (simp_all add: fetch_loop_done fetch_loop_step k assms)
next
  case (Suc n)
  let ?req = "Search jql max_results start_at"
  show ?case
  proof (cases "tot = None \<or> int start_at < the tot")
    case False
    then have "fetch_loop srv jql log all_issues start_at tot = Some (Inr all_issues, log)"
      by (simp add: fetch_loop_done)
    then show ?thesis using Suc.prems by simp
  next
    case cond: True
    show ?thesis
    proof (cases "srv (length log)")
      case None
      with cond have "fetch_loop srv jql log all_issues start_at tot
          = Some (Inl RequestFailed, log @ [?req])"
        by (simp add: fetch_loop_step)
      then show ?thesis using Suc.prems by simp
    next
      case (Some r')
      show ?thesis
      proof (cases "issues_of r' = []")
        case True
        with cond Some have "fetch_loop srv jql log all_issues start_at tot
            = Some (Inr all_issues, log @ [?req])"
          by (simp add: fetch_loop_step)
        then show ?thesis using Suc.prems by simp
      next
        case ne: False
        show ?thesis
        proof (cases "length (issues_of r') < max_results")
          case True
          with cond Some ne have "fetch_loop srv jql log all_issues start_at tot
              = Some (Inr (all_issues @ issues_of r'), log @ [?req])"
            by (simp add: fetch_loop_step)
          then show ?thesis using Suc.prems by simp
        next
          case False
          have lt: "length log < k" using Suc.hyps(2) by simp
          have "n = k - length (log @ [?req])" using Suc.hyps(2) by simp
          moreover have "length (log @ [?req]) \<le> k" using lt by simp
          ultimately have "\<exists>res log'. fetch_loop srv jql (log @ [?req])
              (all_issues @ issues_of r') (start_at + length (issues_of r'))
              (case tot of None \<Rightarrow> Some (total_of r') | Some t \<Rightarrow> Some t) = Some (res, log')
              \<and> length log' \<le> Suc k"
            by (rule Suc.hyps(1))
          moreover from cond Some ne False have "fetch_loop srv jql log all_issues start_at tot
              = fetch_loop srv jql (log @ [?req])
              (all_issues @ issues_of r') (start_at + length (issues_of r'))
              (case tot of None \<Rightarrow> Some (total_of r') | Some t \<Rightarrow> Some t)"
            by (simp add: fetch_loop_step)
          ultimately show ?thesis by simp
        qed
      qed
    qed
  qed
qed

lemma fetch_loop_pages:
  assumes "fetch_loop srv jql log all_issues start_at tot = Some y"
  shows "length log \<le> length (snd y) \<and>
         (\<forall>res. fst y = Inr res \<longrightarrow>
            res = all_issues @ concat (map (page_of srv) [length log..<length (snd y)]))"
  using assms
proof (induction srv jql log all_issues start_at tot y rule: fetch_loop.raw_induct)
  case (1 loop srv jql log all_issues start_at tot y)
  let ?req = "Search jql max_results start_at"
  show ?case
  proof (cases "tot = None \<or> int start_at < the tot")
    case False
    with 1(2) have "y = (Inr all_issues, log)" by auto
    then show ?thesis by simp
  next
    case cond: True
    show ?thesis
    proof (cases "srv (length log)")
      case None
      with cond 1(2) have "y = (Inl RequestFailed, log @ [?req])"
        by (auto simp: make_jira_request_def)
      then show ?thesis by simp
    next
      case (Some r)
      then have page: "page_of srv (length log) = issues_of r" by (simp add: page_of_def)
      show ?thesis
      proof (cases "issues_of r = []")
        case True
        with cond Some 1(2) have "y = (Inr all_issues, log @ [?req])"
          by (auto simp: make_jira_request_def)
        then show ?thesis using True page by simp
      next
        case ne: False
        show ?thesis
        proof (cases "length (issues_of r) < max_results")
          case True
          with cond Some ne 1(2) have "y = (Inr (all_issues @ issues_of r), log @ [?req])"
            by (auto simp: make_jira_request_def)
          then show ?thesis using page by simp
        next
          case False
          with cond Some ne 1(2) have "loop srv jql (log @ [?req]) (all_issues @ issues_of r)
              (start_at + length (issues_of r))
              (case tot of None \<Rightarrow> Some (total_of r) | Some t \<Rightarrow> Some t) = Some y"
            by (auto simp: make_jira_request_def)
          moreover from cond Some ne False 1(3) have "fetch_loop srv jql (log @ [?req])
              (all_issues @ issues_of r) (start_at + length (issues_of r))
              (case tot of None \<Rightarrow> Some (total_of r) | Some t \<Rightarrow> Some t) = Some y"
            by (simp add: fetch_loop_step)
          ultimately have ih: "length (log @ [?req]) \<le> length (snd y) \<and>
             (\<forall>res. fst y = Inr res \<longrightarrow>
                res = (all_issues @ issues_of r) @
                  concat (map (page_of srv) [length (log @ [?req])..<length (snd y)]))"
            by (rule 1(1))
          then have lt: "length log < length (snd y)" by simp
          then have "[length log..<length (snd y)] = length log # [Suc (length log)..<length (snd y)]"
            by (rule upt_conv_Cons)
          with ih page show ?thesis by simp
        qed
      qed
    qed
  qed
qed (rule assms)

lemma fetch_loop_full:
  "tot = None \<or> int start_at < the tot \<Longrightarrow> srv (length log) = Some r \<Longrightarrow>
   max_results \<le> length (issues_of r) \<Longrightarrow>
     fetch_loop srv jql log all_issues start_at tot =
       fetch_loop srv jql (log @ [Search jql max_results start_at]) (all_issues @ issues_of r)
         (start_at + length (issues_of r))
         (case tot of None \<Rightarrow> Some (total_of r) | Some t \<Rightarrow> Some t)"
  by (auto simp: fetch_loop_step max_results_def)

lemma fetch_loop_short:
  "tot = None \<or> int start_at < the tot \<Longrightarrow> srv (length log) = Some r \<Longrightarrow>
   length (issues_of r) < max_results \<Longrightarrow>
     fetch_loop srv jql log all_issues start_at tot =
       Some (Inr (all_issues @ issues_of r), log @ [Search jql max_results start_at])"
  by (auto simp: fetch_loop_step)

lemma get_tasks_named:
  "srv 0 = Some info \<Longrightarrow> reply_name info = Some nm \<Longrightarrow> nm \<noteq> [] \<Longrightarrow>
     get_tasks_in_release srv rid = fetch_loop srv (jql_of nm) [GetVersion rid] [] 0 None"
  by (simp add: get_tasks_in_release_def get_release_info_def make_jira_request_def)

lemma get_tasks_cases:
  "(get_tasks_in_release srv rid = Some (Inl RequestFailed, [GetVersion rid]) \<and> srv 0 = None) \<or>
   (get_tasks_in_release srv rid = Some (Inl ReleaseNotFound, [GetVersion rid]) \<and>
      (\<exists>info. srv 0 = Some info \<and> (reply_name info = None \<or> reply_name info = Some []))) \<or>
   (\<exists>info nm. srv 0 = Some info \<and> reply_name info = Some nm \<and> nm \<noteq> [] \<and>
      get_tasks_in_release srv rid = fetch_loop srv (jql_of nm) [GetVersion rid] [] 0 None)"
  by (auto simp: get_tasks_in_release_def get_release_info_def make_jira_request_def
           split: option.splits)

lemma issues_of_page: "issues_of (page is t) = is"
  by (simp add: issues_of_def page_def)

lemma total_of_page: "total_of (page is t) = t"
  by (simp add: total_of_def page_def)

lemma length_tickets: "length (tickets a b) = b - a"
  by (simp add: tickets_def)

lemma srv_shifted_run:
  "get_tasks_in_release srv_shifted ''1234'' =
     Some (Inr (tickets 0 100 @ [ticket 99]),
           [GetVersion ''1234'', Search (jql_of ''Sprint 42'') 100 0,
            Search (jql_of ''Sprint 42'') 100 100])"
proof -
  let ?q = "jql_of ''Sprint 42''"
  have "get_tasks_in_release srv_shifted ''1234'' = fetch_loop srv_shifted ?q [GetVersion ''1234''] [] 0 None"
    by (rule get_tasks_named [of _ "named ''Sprint 42''"])
       (simp_all add: srv_shifted_def srv_of_def named_def)
  also have "\<dots> = fetch_loop srv_shifted ?q ([GetVersion ''1234''] @ [Search ?q max_results 0])
        ([] @ issues_of (page (tickets 0 100) 101)) (0 + length (issues_of (page (tickets 0 100) 101)))
        (case None of None \<Rightarrow> Some (total_of (page (tickets 0 100) 101)) | Some t \<Rightarrow> Some t)"
    by (intro fetch_loop_full)
       (simp_all add: srv_shifted_def srv_of_def issues_of_page length_tickets max_results_def)
  also have "\<dots> = fetch_loop srv_shifted ?q [GetVersion ''1234'', Search ?q 100 0]
        (tickets 0 100) 100 (Some 101)"
    by (simp add: issues_of_page length_tickets max_results_def total_of_page)
  also have "\<dots> = Some (Inr (tickets 0 100 @ issues_of (page [ticket 99] 101)),
        [GetVersion ''1234'', Search ?q 100 0] @ [Search ?q max_results 100])"
    by (intro fetch_loop_short)
       (simp_all add: srv_shifted_def srv_of_def issues_of_page max_results_def)
  finally show ?thesis by (simp add: issues_of_page max_results_def)
qed

text \<open>
  C4. If the tracker's answer number \<open>k\<close> (the \<open>k\<close>-th search answer, the lookup being
  answer 0) is a short page, empty page included, then \<^verbatim>\<open>get_tasks_in_release\<close> returns,
  whatever totals the tracker reports, and it has sent no request after that page: the
  log holds at most \<open>k + 1\<close> requests.
\<close>

theorem pagination_stops_at_short_page:
  assumes "1 \<le> k" "srv k = Some r" "length (issues_of r) < max_results"
  shows "\<exists>res log. get_tasks_in_release srv rid = Some (res, log) \<and> length log \<le> Suc k"
proof -
  have "\<exists>res log'. fetch_loop srv jql [GetVersion rid] [] 0 None = Some (res, log')
          \<and> length log' \<le> Suc k" for jql
    using assms fetch_loop_stops [of srv k r "[GetVersion rid]"] by simp
  then show ?thesis using get_tasks_cases [of srv rid] by auto
qed

theorem pagination_stops_at_short_page_witness:
  "(1::nat) \<le> 2 \<and> srv_inconsistent 2 = Some (page (tickets 100 105) 1000) \<and>
   length (issues_of (page (tickets 100 105) 1000)) < max_results \<and>
   (\<exists>res log. get_tasks_in_release srv_inconsistent ''1234'' = Some (res, log) \<and> length log \<le> 3)"
proof -
  have h1: "(1::nat) \<le> 2" by simp
  have h2: "srv_inconsistent 2 = Some (page (tickets 100 105) 1000)"
    by (simp add: srv_inconsistent_def srv_of_def)
  have h3: "length (issues_of (page (tickets 100 105) 1000)) < max_results"
    by (simp add: issues_of_page length_tickets max_results_def)
  from pagination_stops_at_short_page
         [where k = 2 and srv = srv_inconsistent and rid = "''1234''", OF h1 h2 h3] h1 h2 h3
  show ?thesis by (simp add: numeral_3_eq_3)
qed

text \<open>
  C5 (as amended). The tickets returned by \<^verbatim>\<open>get_tasks_in_release\<close> are the pages the
  tracker answered, concatenated in order with nothing removed; so their keys are
  pairwise distinct exactly when no key is repeated within or across those pages.
\<close>

theorem tasks_are_the_pages:
  assumes "get_tasks_in_release srv rid = Some (Inr res, log)"
  shows "res = concat (map (page_of srv) [1..<length log]) \<and>
         (distinct (map key res) \<longleftrightarrow>
            distinct (map key (concat (map (page_of srv) [1..<length log]))))"
proof -
  from get_tasks_cases [of srv rid] assms obtain nm where
    "fetch_loop srv (jql_of nm) [GetVersion rid] [] 0 None = Some (Inr res, log)" by auto
  from fetch_loop_pages [OF this] show ?thesis by simp
qed

theorem tasks_are_the_pages_witness:
  "get_tasks_in_release srv_small ''1234'' =
     Some (Inr (tickets 0 3), [GetVersion ''1234'', Search (jql_of ''Sprint 42'') 100 0]) \<and>
   tickets 0 3 = concat (map (page_of srv_small) [1..<2]) \<and>
   distinct (map key (tickets 0 3))"
proof -
  let ?q = "jql_of ''Sprint 42''"
  have "get_tasks_in_release srv_small ''1234'' = fetch_loop srv_small ?q [GetVersion ''1234''] [] 0 None"
    by (rule get_tasks_named [of _ "named ''Sprint 42''"])
       (simp_all add: srv_small_def srv_of_def named_def)
  also have "\<dots> = Some (Inr ([] @ issues_of (page (tickets 0 3) 3)),
        [GetVersion ''1234''] @ [Search ?q max_results 0])"
    by (intro fetch_loop_short)
       (simp_all add: srv_small_def srv_of_def issues_of_page length_tickets max_results_def)
  finally have run: "get_tasks_in_release srv_small ''1234'' =
     Some (Inr (tickets 0 3), [GetVersion ''1234'', Search ?q 100 0])"
    by (simp add: issues_of_page max_results_def)
  have d: "distinct (map key (tickets 0 3))" by code_simp
  from tasks_are_the_pages [OF run] run d show ?thesis by (simp add: numeral_2_eq_2)
qed

text \<open>
  C5 as stated fails: when the second page repeats the last issue of the first page, the
  returned list holds that key twice.
\<close>

theorem tasks_not_deduplicated:
  "get_tasks_in_release srv_shifted ''1234'' =
     Some (Inr (tickets 0 100 @ [ticket 99]),
           [GetVersion ''1234'', Search (jql_of ''Sprint 42'') 100 0,
            Search (jql_of ''Sprint 42'') 100 100]) \<and>
   \<not> distinct (map key (tickets 0 100 @ [ticket 99]))"
proof -
  have "ticket 99 \<in> set (tickets 0 100)" by (simp add: tickets_def)
  then have "\<not> distinct (map key (tickets 0 100 @ [ticket 99]))" by auto
  with srv_shifted_run show ?thesis by simp
qed

text \<open>
  C7. With pages of 100, 100 and 37 issues and a reported total of 237,
  \<^verbatim>\<open>get_tasks_in_release\<close> returns the 237 issues of the three pages and sends exactly
  three search requests, at offsets 0, 100 and 200.
\<close>

theorem three_pages:
  assumes "srv 0 = Some info" "reply_name info = Some nm" "nm \<noteq> []"
    and "srv 1 = Some r1" "srv 2 = Some r2" "srv 3 = Some r3"
    and "length (issues_of r1) = 100" "length (issues_of r2) = 100" "length (issues_of r3) = 37"
    and "reply_total r1 = Some 237"
  shows "get_tasks_in_release srv rid =
           Some (Inr (issues_of r1 @ issues_of r2 @ issues_of r3),
                 [GetVersion rid, Search (jql_of nm) 100 0, Search (jql_of nm) 100 100,
                  Search (jql_of nm) 100 200]) \<and>
         length (issues_of r1 @ issues_of r2 @ issues_of r3) = 237"
proof -
  let ?q = "jql_of nm"
  have "get_tasks_in_release srv rid = fetch_loop srv ?q [GetVersion rid] [] 0 None"
    using assms(1,2,3) by (rule get_tasks_named)
  also have "\<dots> = fetch_loop srv ?q ([GetVersion rid] @ [Search ?q max_results 0])
                      ([] @ issues_of r1) (0 + length (issues_of r1))
                      (case None of None \<Rightarrow> Some (total_of r1) | Some t \<Rightarrow> Some t)"
    using assms(4,7) by (intro fetch_loop_full) (simp_all add: max_results_def)
  also have "\<dots> = fetch_loop srv ?q [GetVersion rid, Search ?q 100 0] (issues_of r1) 100 (Some 237)"
    using assms(7,10) by (simp add: max_results_def total_of_def)
  also have "\<dots> = fetch_loop srv ?q ([GetVersion rid, Search ?q 100 0] @ [Search ?q max_results 100])
                      (issues_of r1 @ issues_of r2) (100 + length (issues_of r2))
                      (case Some 237 of None \<Rightarrow> Some (total_of r2) | Some t \<Rightarrow> Some t)"
    using assms(5,8) by (intro fetch_loop_full) (simp_all add: max_results_def numeral_2_eq_2)
  also have "\<dots> = fetch_loop srv ?q [GetVersion rid, Search ?q 100 0, Search ?q 100 100]
                      (issues_of r1 @ issues_of r2) 200 (Some 237)"
    using assms(8) by (simp add: max_results_def)
  also have "\<dots> = Some (Inr ((issues_of r1 @ issues_of r2) @ issues_of r3),
                 [GetVersion rid, Search ?q 100 0, Search ?q 100 100] @ [Search ?q max_results 200])"
    using assms(6,9) by (intro fetch_loop_short) (simp_all add: max_results_def numeral_3_eq_3)
  finally show ?thesis using assms(7,8,9) by (simp add: max_results_def)
qed

theorem three_pages_witness:
  "get_tasks_in_release srv_237 ''1234'' =
     Some (Inr (tickets 0 100 @ tickets 100 200 @ tickets 200 237),
           [GetVersion ''1234'', Search (jql_of ''Sprint 42'') 100 0,
            Search (jql_of ''Sprint 42'') 100 100, Search (jql_of ''Sprint 42'') 100 200]) \<and>
   length (tickets 0 100 @ tickets 100 200 @ tickets 200 237) = 237"
proof -
  have h: "srv_237 0 = Some (named ''Sprint 42'')" "reply_name (named ''Sprint 42'') = Some ''Sprint 42''"
    "''Sprint 42'' \<noteq> []"
    "srv_237 1 = Some (page (tickets 0 100) 237)" "srv_237 2 = Some (page (tickets 100 200) 237)"
    "srv_237 3 = Some (page (tickets 200 237) 237)"
    "length (issues_of (page (tickets 0 100) 237)) = 100"
    "length (issues_of (page (tickets 100 200) 237)) = 100"
    "length (issues_of (page (tickets 200 237) 237)) = 37"
    "reply_total (page (tickets 0 100) 237) = Some 237"
    by (simp_all add: srv_237_def srv_of_def named_def issues_of_page length_tickets)
       (simp add: page_def)
  from three_pages [where srv = srv_237 and rid = "''1234''", OF h]
  show ?thesis by (simp add: issues_of_page)
qed

text \<open>
  C9. When the lookup answers without a name (no name, or an empty one), both
  \<^verbatim>\<open>get_tasks_in_release\<close> and the run end with \<open>ReleaseNotFound\<close>, and the log of
  requests holds the lookup and nothing else: one lookup call, no search call.
\<close>

theorem unresolved_release_fails:
  assumes "srv 0 = Some info" "reply_name info = None \<or> reply_name info = Some []"
  shows "get_tasks_in_release srv rid = Some (Inl ReleaseNotFound, [GetVersion rid]) \<and>
         run srv rx ts all_commits rid target_branch output_file now
           = Some (Inl ReleaseNotFound, [GetVersion rid])"
proof -
  from assms have "get_tasks_in_release srv rid = Some (Inl ReleaseNotFound, [GetVersion rid])"
    by (auto simp: get_tasks_in_release_def get_release_info_def make_jira_request_def)
  then show ?thesis by (simp add: run_def)
qed

theorem unresolved_release_fails_witness:
  "get_tasks_in_release srv_unnamed ''1234'' = Some (Inl ReleaseNotFound, [GetVersion ''1234'']) \<and>
   run srv_unnamed ticket_match Some [] ''1234'' ''release/v1.0'' None ''2024-01-01 00:00:00''
     = Some (Inl ReleaseNotFound, [GetVersion ''1234''])"
proof -
  have h1: "srv_unnamed 0 = Some \<lparr>reply_name = None, reply_issues = None, reply_total = None\<rparr>"
    by (simp add: srv_unnamed_def srv_of_def)
  have h2: "reply_name \<lparr>reply_name = None, reply_issues = None, reply_total = None\<rparr> = None
            \<or> reply_name \<lparr>reply_name = None, reply_issues = None, reply_total = None\<rparr> = Some []"
    by simp
  from unresolved_release_fails [where srv = srv_unnamed, OF h1 h2] show ?thesis by blast
qed

text \<open>
  C10. In a turn of the loop, a page of exactly \<open>max_results\<close> issues that brings the
  count to the reported total or beyond ends the loop with this request as the last one;
  the page is kept whole. With a reported total of 50 and a first page of 100 issues
  the result is the 100 issues after one search request (the witness).
\<close>

theorem full_page_reaching_total_stops:
  assumes "tot = None \<or> int start_at < the tot"
    and "srv (length log) = Some r"
    and "length (issues_of r) = max_results"
    and "(case tot of None \<Rightarrow> total_of r | Some t \<Rightarrow> t) \<le> int (start_at + length (issues_of r))"
  shows "fetch_loop srv jql log all_issues start_at tot
           = Some (Inr (all_issues @ issues_of r), log @ [Search jql max_results start_at])"
proof -
  have ne: "issues_of r \<noteq> []" using assms(3) by (auto simp: max_results_def)
  have "fetch_loop srv jql log all_issues start_at tot
      = fetch_loop srv jql (log @ [Search jql max_results start_at]) (all_issues @ issues_of r)
          (start_at + length (issues_of r))
          (case tot of None \<Rightarrow> Some (total_of r) | Some t \<Rightarrow> Some t)"
    using assms(1,2,3) ne by (simp add: fetch_loop_step)
  also have "\<dots> = Some (Inr (all_issues @ issues_of r), log @ [Search jql max_results start_at])"
    using assms(4) by (intro fetch_loop_done) (auto split: option.splits)
  finally show ?thesis .
qed

theorem full_page_reaching_total_stops_witness:
  "srv_50 1 = Some (page (tickets 0 100) 50) \<and> srv_50 2 = Some (page (tickets 100 200) 50) \<and>
   get_tasks_in_release srv_50 ''1234'' =
     Some (Inr (tickets 0 100),
           [GetVersion ''1234'', Search (jql_of ''Sprint 42'') 100 0]) \<and>
   (50::int) < int (length (tickets 0 100))"
proof -
  have h2: "srv_50 (length [GetVersion ''1234'']) = Some (page (tickets 0 100) 50)"
    by (simp add: srv_50_def srv_of_def)
  have h3: "length (issues_of (page (tickets 0 100) 50)) = max_results"
    by (simp add: issues_of_page length_tickets max_results_def)
  have h4: "(case None of None \<Rightarrow> total_of (page (tickets 0 100) 50) | Some t \<Rightarrow> t)
      \<le> int (0 + length (issues_of (page (tickets 0 100) 50)))"
    by (simp add: issues_of_page length_tickets total_of_page)
  have h1: "(None :: int option) = None \<or> int 0 < the None" by simp
  have more: "srv_50 2 = Some (page (tickets 100 200) 50)"
    by (simp add: srv_50_def srv_of_def)
  have "get_tasks_in_release srv_50 ''1234'' =
          fetch_loop srv_50 (jql_of ''Sprint 42'') [GetVersion ''1234''] [] 0 None"
    by (rule get_tasks_named [of _ "named ''Sprint 42''"])
       (simp_all add: srv_50_def srv_of_def named_def)
  with full_page_reaching_total_stops [where srv = srv_50 and all_issues = "[]"
         and jql = "jql_of ''Sprint 42''", OF h1 h2 h3 h4] h2 more
  show ?thesis by (simp add: issues_of_page length_tickets max_results_def)
qed


section \<open>The chronological orderer\<close>

text \<open>
  C3. \<^verbatim>\<open>order_commits_chronologically\<close> returns a permutation of its input, sorted by
  commit date ascending; it is stable: the associations of any one date come out in
  their input order; and of two associations with different dates the one with the
  smaller date comes first.
\<close>

theorem order_commits_sorted_stable:
  fixes commits :: "('d::linorder) association list"
  shows "mset (order_commits_chronologically commits) = mset commits \<and>
     sorted (map commit_date (order_commits_chronologically commits)) \<and>
     (\<forall>t. filter (\<lambda>a. commit_date a = t) (order_commits_chronologically commits)
            = filter (\<lambda>a. commit_date a = t) commits) \<and>
     (\<forall>i j. i < length commits \<and> j < length commits \<and>
        commit_date (order_commits_chronologically commits ! i)
          < commit_date (order_commits_chronologically commits ! j) \<longrightarrow> i < j)"
proof -
  let ?out = "order_commits_chronologically commits"
  have len: "length ?out = length commits" by (simp add: order_commits_chronologically_def)
  have srt: "sorted (map commit_date ?out)" by (simp add: order_commits_chronologically_def)
  have "i < j" if "i < length commits" "j < length commits"
     "commit_date (?out ! i) < commit_date (?out ! j)" for i j
  proof (rule ccontr)
    assume "\<not> i < j"
    then have "j \<le> i" by simp
    with srt that(1) len have "map commit_date ?out ! j \<le> map commit_date ?out ! i"
      by (simp add: sorted_iff_nth_mono del: nth_map)
    with that len show False by simp
  qed
  then show ?thesis using srt
    by (simp add: order_commits_chronologically_def sort_key_stable)
qed

theorem order_commits_sorted_stable_witness:
  "order_commits_chronologically same_time_commits =
     [assoc_ex ''ABC-2'' ''b'' 1 ''ABC-2 two'', assoc_ex ''ABC-2'' ''d'' 2 ''ABC-2 four'',
      assoc_ex ''ABC-1'' ''a'' 3 ''ABC-1 one'', assoc_ex ''ABC-1'' ''c'' 3 ''ABC-1 three''] \<and>
   mset (order_commits_chronologically same_time_commits) = mset same_time_commits \<and>
   sorted (map commit_date (order_commits_chronologically same_time_commits)) \<and>
   filter (\<lambda>a. commit_date a = 3) (order_commits_chronologically same_time_commits) =
     [assoc_ex ''ABC-1'' ''a'' 3 ''ABC-1 one'', assoc_ex ''ABC-1'' ''c'' 3 ''ABC-1 three'']"
proof -
  have ev: "order_commits_chronologically same_time_commits =
     [assoc_ex ''ABC-2'' ''b'' 1 ''ABC-2 two'', assoc_ex ''ABC-2'' ''d'' 2 ''ABC-2 four'',
      assoc_ex ''ABC-1'' ''a'' 3 ''ABC-1 one'', assoc_ex ''ABC-1'' ''c'' 3 ''ABC-1 three'']"
    by (simp add: order_commits_chronologically_def same_time_commits_def assoc_ex_def)
  have f: "filter (\<lambda>a. commit_date a = 3) same_time_commits =
     [assoc_ex ''ABC-1'' ''a'' 3 ''ABC-1 one'', assoc_ex ''ABC-1'' ''c'' 3 ''ABC-1 three'']"
    by (simp add: same_time_commits_def assoc_ex_def)
  from order_commits_sorted_stable [of same_time_commits] ev f show ?thesis by metis
qed


section \<open>The script generator\<close>

lemma append_commits_concat:
  "append_commits sc cs = sc @ concat (map (\<lambda>c. [comment_line c, pick_line c, []]) cs)"
  by (induction cs arbitrary: sc) simp_all

lemma split_lines_single: "CHR 0x0A \<notin> set l \<Longrightarrow> split_lines l = [l]"
  by (induction l) auto

lemma split_lines_append:
  "CHR 0x0A \<notin> set l \<Longrightarrow> split_lines (l @ CHR 0x0A # r) = l # split_lines r"
  by (induction l) auto

lemma split_join:
  "ls \<noteq> [] \<Longrightarrow> \<forall>l \<in> set ls. CHR 0x0A \<notin> set l \<Longrightarrow> split_lines (join_lines ls) = ls"
proof (induction ls rule: join_lines.induct)
  case 1
  then show ?case by simp
next
  case (2 l)
  then show ?case by (simp add: split_lines_single)
next
  case (3 l m ls)
  then show ?case by (simp add: split_lines_append newline_def)
qed

lemma filter_entries:
  "filter is_command (concat (map (\<lambda>c. [CHR ''#'' # f c, CHR ''g'' # g c, []]) cs))
     = map (\<lambda>c. CHR ''g'' # g c) cs"
  by (induction cs) (simp_all add: is_command_def is_blank_def)

text \<open>
  C8 (as amended). When the release id, the target branch, the generation time, the
  ticket keys and the commit hashes contain no newline, the text of the file written,
  read line by line, is: the header, in which \<^verbatim>\<open>set -e\<close> is the first command and the
  checkout of the target branch the second; then, for each association in the order
  given, a comment with its ticket key and the first line of its commit message, the line
  \<^verbatim>\<open>git cherry-pick --strategy=recursive -X theirs\<close> with its commit hash, and an empty
  line; then the line echoing the success message. The command lines among them (the
  lines that are neither blank nor comments) are \<^verbatim>\<open>set -e\<close>, the checkout line, one
  cherry-pick line per association in order, and the echo line.
\<close>

theorem script_file_lines:
  assumes "CHR 0x0A \<notin> set release_id" and "CHR 0x0A \<notin> set target_branch"
    and "CHR 0x0A \<notin> set now"
    and "\<forall>c \<in> set cs. CHR 0x0A \<notin> set (ticket_key c) \<and> CHR 0x0A \<notin> set (commit_hash c)"
  shows "split_lines (content (generate_cherry_pick_script release_id target_branch output_file now cs)) =
     [''#!/bin/bash'', [],
      ''# Cherry-pick script for JIRA release '' @ release_id,
      ''# Generated on '' @ now, [],
      ''# Exit on error'',
      ''set -e'', [],
      ''# Checkout the target branch'',
      ''git checkout '' @ target_branch, [],
      ''# Cherry-pick each commit'', []]
     @ concat (map (\<lambda>c. [''# '' @ ticket_key c @ '': '' @
                             takeWhile (\<lambda>x. x \<noteq> CHR 0x0A) (commit_message c),
                           ''git cherry-pick --strategy=recursive -X theirs '' @ commit_hash c,
                           []]) cs)
     @ [''echo '' @ [CHR 0x27] @ ''Cherry-picking completed successfully!'' @ [CHR 0x27]] \<and>
   filter is_command
       (split_lines (content (generate_cherry_pick_script release_id target_branch output_file now cs))) =
     [''set -e'', ''git checkout '' @ target_branch]
     @ map (\<lambda>c. ''git cherry-pick --strategy=recursive -X theirs '' @ commit_hash c) cs
     @ [''echo '' @ [CHR 0x27] @ ''Cherry-picking completed successfully!'' @ [CHR 0x27]]"
proof -
  let ?entry = "\<lambda>c::'a association.
       [''# '' @ ticket_key c @ '': '' @ takeWhile (\<lambda>x. x \<noteq> CHR 0x0A) (commit_message c),
        ''git cherry-pick --strategy=recursive -X theirs '' @ commit_hash c, []]"
  let ?echo = "''echo '' @ [CHR 0x27] @ ''Cherry-picking completed successfully!'' @ [CHR 0x27]"
  let ?lines = "script_head release_id target_branch now @ concat (map ?entry cs) @ [?echo]"
  have sc: "script_content release_id target_branch now cs = ?lines"
    by (simp add: script_content_def append_commits_concat comment_line_def pick_line_def
          first_line_def newline_def success_line_def squote_def)
  have body: "\<forall>l \<in> set (concat (map ?entry cs)). CHR 0x0A \<notin> set l"
    using assms(4) by (auto dest: set_takeWhileD)
  have head: "\<forall>l \<in> set (script_head release_id target_branch now). CHR 0x0A \<notin> set l"
    using assms(1,2,3) by (simp add: script_head_def)
  have "\<forall>l \<in> set ?lines. CHR 0x0A \<notin> set l" using head body by auto
  moreover have "?lines \<noteq> []" by simp
  ultimately have "split_lines (join_lines ?lines) = ?lines" by (rule split_join [rotated])
  then have lines: "split_lines (content (generate_cherry_pick_script release_id target_branch
       output_file now cs)) = ?lines"
    by (simp add: generate_cherry_pick_script_def sc)
  have "filter is_command (concat (map ?entry cs)) =
        map (\<lambda>c. ''git cherry-pick --strategy=recursive -X theirs '' @ commit_hash c) cs"
    using filter_entries [of "\<lambda>c. '' '' @ ticket_key c @ '': '' @
             takeWhile (\<lambda>x. x \<noteq> CHR 0x0A) (commit_message c)"
           "\<lambda>c. ''it cherry-pick --strategy=recursive -X theirs '' @ commit_hash c" cs]
    by simp
  then have "filter is_command ?lines =
     [''set -e'', ''git checkout '' @ target_branch]
     @ map (\<lambda>c. ''git cherry-pick --strategy=recursive -X theirs '' @ commit_hash c) cs @ [?echo]"
    by (simp add: script_head_def is_command_def is_blank_def)
  with lines show ?thesis by (simp add: script_head_def)
qed

theorem script_file_lines_witness:
  "CHR 0x0A \<notin> set ''1234'' \<and> CHR 0x0A \<notin> set ''release/v1.0'' \<and>
   CHR 0x0A \<notin> set ''2024-01-01 00:00:00'' \<and>
   CHR 0x0A \<notin> set ''ABC-1'' \<and> CHR 0x0A \<notin> set ''c1'' \<and> CHR 0x0A \<notin> set ''c3'' \<and>
   split_lines (content (generate_cherry_pick_script ''1234'' ''release/v1.0'' None
       ''2024-01-01 00:00:00'' scenario_associations)) =
     [''#!/bin/bash'', [],
      ''# Cherry-pick script for JIRA release 1234'',
      ''# Generated on 2024-01-01 00:00:00'', [],
      ''# Exit on error'',
      ''set -e'', [],
      ''# Checkout the target branch'',
      ''git checkout release/v1.0'', [],
      ''# Cherry-pick each commit'', [],
      ''# ABC-1: ABC-1 fix'',
      ''git cherry-pick --strategy=recursive -X theirs c1'', [],
      ''# ABC-1: ABC-2 and ABC-1 combined'',
      ''git cherry-pick --strategy=recursive -X theirs c3'', [],
      ''echo '' @ [CHR 0x27] @ ''Cherry-picking completed successfully!'' @ [CHR 0x27]] \<and>
   filter is_command (split_lines (content (generate_cherry_pick_script ''1234'' ''release/v1.0''
       None ''2024-01-01 00:00:00'' scenario_associations))) =
     [''set -e'', ''git checkout release/v1.0'',
      ''git cherry-pick --strategy=recursive -X theirs c1'',
      ''git cherry-pick --strategy=recursive -X theirs c3'',
      ''echo '' @ [CHR 0x27] @ ''Cherry-picking completed successfully!'' @ [CHR 0x27]]"
proof -
  have h1: "CHR 0x0A \<notin> set ''1234''" and h2: "CHR 0x0A \<notin> set ''release/v1.0''"
    and h3: "CHR 0x0A \<notin> set ''2024-01-01 00:00:00''" by simp_all
  have h4: "\<forall>c \<in> set scenario_associations.
      CHR 0x0A \<notin> set (ticket_key c) \<and> CHR 0x0A \<notin> set (commit_hash c)"
    by (simp add: scenario_associations_def assoc_ex_def)
  note lines = script_file_lines [OF h1 h2 h3 h4, of None]
  have a: "split_lines (content (generate_cherry_pick_script ''1234'' ''release/v1.0'' None
       ''2024-01-01 00:00:00'' scenario_associations)) =
     [''#!/bin/bash'', [],
      ''# Cherry-pick script for JIRA release 1234'',
      ''# Generated on 2024-01-01 00:00:00'', [],
      ''# Exit on error'',
      ''set -e'', [],
      ''# Checkout the target branch'',
      ''git checkout release/v1.0'', [],
      ''# Cherry-pick each commit'', [],
      ''# ABC-1: ABC-1 fix'',
      ''git cherry-pick --strategy=recursive -X theirs c1'', [],
      ''# ABC-1: ABC-2 and ABC-1 combined'',
      ''git cherry-pick --strategy=recursive -X theirs c3'', [],
      ''echo '' @ [CHR 0x27] @ ''Cherry-picking completed successfully!'' @ [CHR 0x27]]"
    using lines [THEN conjunct1]
    by (simp add: scenario_associations_def assoc_ex_def newline_def)
  have b: "filter is_command (split_lines (content (generate_cherry_pick_script ''1234''
       ''release/v1.0'' None ''2024-01-01 00:00:00'' scenario_associations))) =
     [''set -e'', ''git checkout release/v1.0'',
      ''git cherry-pick --strategy=recursive -X theirs c1'',
      ''git cherry-pick --strategy=recursive -X theirs c3'',
      ''echo '' @ [CHR 0x27] @ ''Cherry-picking completed successfully!'' @ [CHR 0x27]]"
    using lines [THEN conjunct2]
    by (simp add: scenario_associations_def assoc_ex_def)
  have h5: "CHR 0x0A \<notin> set ''ABC-1'' \<and> CHR 0x0A \<notin> set ''c1'' \<and> CHR 0x0A \<notin> set ''c3''"
    by simp
  from h1 h2 h3 h5 a b show ?thesis by blast
qed

text \<open>
  C8 as stated fails when the release id or the target branch holds a newline: the text
  is pasted into the script as it is, so what follows the newline is a line of its own.
  Here a command precedes \<^verbatim>\<open>set -e\<close>, and \<^verbatim>\<open>set +e\<close> follows the checkout.
\<close>

theorem script_newline_injection:
  "filter is_command
     (split_lines (content (generate_cherry_pick_script
        (''1'' @ [CHR 0x0A] @ ''rm -rf x'') (''main'' @ [CHR 0x0A] @ ''set +e'') None
        ''2024-01-01 00:00:00''
        [assoc_ex ''ABC-1'' ''c1'' 100 ''ABC-1 fix'']))) =
     [''rm -rf x'', ''set -e'', ''git checkout main'', ''set +e'',
      ''git cherry-pick --strategy=recursive -X theirs c1'',
      ''echo '' @ [CHR 0x27] @ ''Cherry-picking completed successfully!'' @ [CHR 0x27]]"
  by (simp add: generate_cherry_pick_script_def script_content_def script_head_def
        comment_line_def pick_line_def first_line_def success_line_def squote_def newline_def
        assoc_ex_def is_command_def is_blank_def)

end
